theory Spec2Isabelle
  imports Main "HOL-Library.Word"
begin

unbundle bit_operations_syntax

section \<open>Machine types and errors\<close>

type_synonym byte = "8 word"
type_synonym uint16 = "16 word"
type_synonym uint32 = "32 word"
type_synonym uint64 = "64 word"

text \<open>
  The error values of the package (the \<open>var\<close> block of error declarations), the
  iterator's end signal \<open>ErrIterationDone\<close>, the two end-of-input errors of Go's
  \<open>io\<close> package that \<open>io.ReadFull\<close> returns, \<open>os.ErrExist\<close>, an error of the
  file system (\<open>IOError\<close>, told apart by a message), and \<open>errors.Wrap\<close>, which keeps
  the wrapped error and adds a message. \<open>Panic\<close> stands for a run-time panic of Go.
\<close>

datatype error =
    errKeyTooLarge
  | errFull
  | errCorrupted
  | errLocked
  | errBusy
  | ErrIterationDone
  | EOF
  | ErrUnexpectedEOF
  | ErrExist
  | ErrNotExist
  | IOError string
  | Panic string
  | Wrap error string

section \<open>Little-endian integers and CRC-32 (Go standard library)\<close>

text \<open>\<open>binary.LittleEndian.PutUint16\<close> and \<open>Uint16\<close>: the low byte first.\<close>

definition PutUint16 :: "uint16 \<Rightarrow> byte list" where
  "PutUint16 v = [ucast v, ucast (drop_bit 8 v)]"

definition Uint16 :: "byte list \<Rightarrow> uint16" where
  "Uint16 b = ucast (b ! 0) OR push_bit 8 (ucast (b ! 1))"

definition PutUint32 :: "uint32 \<Rightarrow> byte list" where
  "PutUint32 v = [ucast v, ucast (drop_bit 8 v), ucast (drop_bit 16 v), ucast (drop_bit 24 v)]"

definition Uint32 :: "byte list \<Rightarrow> uint32" where
  "Uint32 b = ucast (b ! 0) OR push_bit 8 (ucast (b ! 1))
                OR push_bit 16 (ucast (b ! 2)) OR push_bit 24 (ucast (b ! 3))"

text \<open>
  \<open>crc32.ChecksumIEEE\<close>, as Go's \<open>simplePopulateTable\<close> and \<open>simpleUpdate\<close> compute
  it: the table entry of a byte is the byte shifted out in eight steps over the reversed
  polynomial \<open>0xedb88320\<close>; the update starts from the complemented checksum 0 and
  complements the result.
\<close>

definition crc_shift :: "uint32 \<Rightarrow> uint32" where
  "crc_shift crc = (if crc AND 1 = 1 then drop_bit 1 crc XOR 0xedb88320 else drop_bit 1 crc)"

definition IEEETable :: "byte \<Rightarrow> uint32" where
  "IEEETable i = (crc_shift ^^ 8) (ucast i)"

definition crc_update :: "uint32 \<Rightarrow> byte \<Rightarrow> uint32" where
  "crc_update crc v = IEEETable ((ucast crc :: byte) XOR v) XOR drop_bit 8 crc"

definition ChecksumIEEE :: "byte list \<Rightarrow> uint32" where
  "ChecksumIEEE p = NOT (foldl crc_update (NOT 0) p)"

text \<open>
  \<open>io.ReadFull(r, buf)\<close> on a reader whose remaining input is the byte list \<open>r\<close>, for
  a buffer of \<open>n\<close> bytes: the bytes read (or the error) and the input left. No byte at
  all gives \<open>io.EOF\<close>, some but fewer than \<open>n\<close> give \<open>io.ErrUnexpectedEOF\<close>, and the
  bytes that were there are consumed.
\<close>

definition ReadFull :: "byte list \<Rightarrow> nat \<Rightarrow> (error + byte list) \<times> byte list" where
  "ReadFull r n =
     (if n = 0 then (Inr [], r)
      else if r = [] then (Inl EOF, r)
      else if length r < n then (Inl ErrUnexpectedEOF, [])
      else (Inr (take n r), drop n r))"

section \<open>Segments and records (segment.go)\<close>

record segmentMeta =
  Full :: bool
  PutRecords :: uint32
  DeleteRecords :: uint32
  DeletedKeys :: uint32
  DeletedBytes :: uint32

text \<open>
  A segment: its physical and logical identifiers, its metadata, and its file. The file
  is modelled by \<open>seg_data\<close>, the bytes that follow the fixed-size header: a position
  \<open>p\<close> of \<open>seg_data\<close> is the file position \<open>headerSize + p\<close>. The constant
  \<open>headerSize\<close> is declared outside the sources at hand and is a parameter of
  \<open>newSegmentIterator\<close>.
\<close>

record segment =
  seg_id :: uint16
  seg_sequenceID :: uint64
  seg_meta :: segmentMeta
  seg_data :: "byte list"

text \<open>The struct \<open>record\<close> of the source (the name is a keyword here).\<close>

record srecord =
  rec_segmentID :: uint16
  rec_offset :: uint32
  rec_data :: "byte list"
  rec_key :: "byte list"

definition encodedRecordSize :: "uint32 \<Rightarrow> uint32" where
  "encodedRecordSize kvSize = 2 + kvSize + 4"

text \<open>
  \<open>encodePutRecord\<close>: a buffer of \<open>size\<close> bytes, the key size in its first two bytes,
  the key copied behind them, and the checksum of these \<open>2 + len(key)\<close> bytes in the last
  four. For a key of \<open>2^32 - 6\<close> bytes or more the 32-bit size wraps and the slice
  expression \<open>data[:2+len(key)]\<close> panics: the result is \<open>None\<close>.
\<close>

definition encodePutRecord :: "byte list \<Rightarrow> byte list option" where
  "encodePutRecord key =
     (let size = encodedRecordSize (of_nat (length key)) in
      if unat size < 2 + length key + 4 then None
      else
        let data = PutUint16 (of_nat (length key)) @ key;
            checksum = ChecksumIEEE data
        in Some (data @ PutUint32 checksum))"

text \<open>
  The segment iterator: the segment, the offset it reports for the next record, and the
  input its buffered reader has not delivered yet. Its 6-byte buffer \<open>buf\<close> is scratch
  space and needs no field.
\<close>

record segmentIterator =
  it_f :: segment
  it_offset :: uint32
  it_r :: "byte list"

definition newSegmentIterator :: "uint32 \<Rightarrow> segment \<Rightarrow> segmentIterator" where
  "newSegmentIterator headerSize f =
     \<lparr>it_f = f, it_offset = headerSize, it_r = seg_data f\<rparr>"

text \<open>
  \<open>segmentIterator.next\<close>, statement by statement. The first \<open>ReadFull\<close> fills the
  6-byte buffer; the key size is the first two of these bytes; \<open>data\<close> has
  \<open>recordSize\<close> bytes and starts with a copy of the buffer; the second \<open>ReadFull\<close> fills
  \<open>data[2:]\<close>, that is \<open>recordSize - 2\<close> bytes, from the input behind the six bytes
  already consumed. The result is the record or the error, with the iterator as the call
  leaves it.
\<close>

definition "next" :: "segmentIterator \<Rightarrow> (error + srecord) \<times> segmentIterator" where
  "next it =
     (case ReadFull (it_r it) 6 of
        (Inl err, r1) \<Rightarrow>
          (if err = EOF then (Inl ErrIterationDone, it\<lparr>it_r := r1\<rparr>)
           else (Inl err, it\<lparr>it_r := r1\<rparr>))
      | (Inr kvSizeBuf, r1) \<Rightarrow>
          (let keySize = (ucast (Uint16 (take 2 kvSizeBuf)) :: uint32);
               recordSize = encodedRecordSize keySize
           in case ReadFull r1 (unat recordSize - 2) of
                (Inl err, r2) \<Rightarrow> (Inl err, it\<lparr>it_r := r2\<rparr>)
              | (Inr rest, r2) \<Rightarrow>
                  (let data = take 2 kvSizeBuf @ rest;
                       checksum = Uint32 (drop (length data - 4) data)
                   in if checksum \<noteq> ChecksumIEEE (take (length data - 4) data)
                      then (Inl errCorrupted, it\<lparr>it_r := r2\<rparr>)
                      else (Inr \<lparr>rec_segmentID = seg_id (it_f it),
                                 rec_offset = it_offset it,
                                 rec_data = data,
                                 rec_key = take (unat keySize) (drop 2 data)\<rparr>,
                            it\<lparr>it_offset := it_offset it + recordSize, it_r := r2\<rparr>))))"


section \<open>The index and the datalog\<close>

text \<open>The index entry (\<open>slot\<close>): hash, segment, key size and offset of a record.\<close>

record slot =
  sl_hash :: uint32
  sl_segmentID :: uint16
  sl_keySize :: uint16
  sl_offset :: uint32

text \<open>
  Modelled from the spec: the index (\<open>index.get\<close>, \<open>index.put\<close>, \<open>index.count\<close>
  are not in the sources at hand; section 4.3 of the specification describes them). The
  index is the list of its slots in insertion order, and the candidates of a hash are
  the slots with that hash, in that order.

  The callback of the source is a Go closure of type \<open>func(slot) (bool, error)\<close>. The
  closures of \<open>Has\<close> and \<open>HasOrPut\<close> assign the captured variable \<open>found\<close>, so a
  callback takes and returns the captured state \<open>'c\<close>.
\<close>

type_synonym index = "slot list"

type_synonym 'c matchKeyFunc = "slot \<Rightarrow> 'c \<Rightarrow> (bool \<times> error option) \<times> 'c"

text \<open>
  \<open>get\<close>: calls \<open>resolve\<close> on each candidate, once, and stops at the first match or the
  first error; it returns the error, if any.
\<close>

fun index_get :: "index \<Rightarrow> uint32 \<Rightarrow> 'c matchKeyFunc \<Rightarrow> 'c \<Rightarrow> error option \<times> 'c" where
  "index_get [] h resolve c = (None, c)"
| "index_get (sl # sls) h resolve c =
     (if sl_hash sl \<noteq> h then index_get sls h resolve c
      else case resolve sl c of
             ((_, Some err), c') \<Rightarrow> (Some err, c')
           | ((True, None), c') \<Rightarrow> (None, c')
           | ((False, None), c') \<Rightarrow> index_get sls h resolve c')"

text \<open>
  \<open>put\<close>: the same walk over the candidates of the new slot's hash; a match is
  replaced in place by the new slot; with no match the new slot is appended.
\<close>

fun index_put :: "index \<Rightarrow> slot \<Rightarrow> 'c matchKeyFunc \<Rightarrow> 'c \<Rightarrow> (error + index) \<times> 'c" where
  "index_put [] newSlot resolve c = (Inr [newSlot], c)"
| "index_put (sl # sls) newSlot resolve c =
     (if sl_hash sl \<noteq> sl_hash newSlot then
        (case index_put sls newSlot resolve c of
           (Inl err, c') \<Rightarrow> (Inl err, c')
         | (Inr sls', c') \<Rightarrow> (Inr (sl # sls'), c'))
      else case resolve sl c of
             ((_, Some err), c') \<Rightarrow> (Inl err, c')
           | ((True, None), c') \<Rightarrow> (Inr (newSlot # sls), c')
           | ((False, None), c') \<Rightarrow>
               (case index_put sls newSlot resolve c' of
                  (Inl err, c'') \<Rightarrow> (Inl err, c'')
                | (Inr sls', c'') \<Rightarrow> (Inr (sl # sls'), c'')))"

definition index_count :: "index \<Rightarrow> uint32" where
  "index_count idx = of_nat (length idx)"

text \<open>
  Modelled from the spec: the datalog (\<open>datalog.put\<close>, \<open>datalog.readKey\<close>,
  \<open>datalog.sync\<close> are not in the sources at hand; section 4.2 of the specification
  describes them). The segments are a table from the 16-bit physical identifier to the
  segment, \<open>curSeg\<close> names the writable one, \<open>maxSequenceID\<close> is the last logical
  sequence number given out, and \<open>flush_r\<close> is what the file system answers to a flush.
\<close>

record datalog =
  segments :: "uint16 \<Rightarrow> segment option"
  curSeg :: "uint16 option"
  maxSequenceID :: uint64
  flush_r :: "error option"

text \<open>
  The size threshold of a segment. Its value is not in the specification: the largest
  value of the 32-bit offset of a slot is taken, so that every offset fits.
\<close>

definition maxSegmentSize :: nat where
  "maxSegmentSize = 4294967295"

text \<open>The first physical identifier, from \<open>i\<close> on, that no segment uses.\<close>

function nextWritableSegmentID :: "(uint16 \<Rightarrow> segment option) \<Rightarrow> nat \<Rightarrow> uint16 option" where
  "nextWritableSegmentID segs i =
     (if 65536 \<le> i then None
      else if segs (of_nat i) = None then Some (of_nat i)
      else nextWritableSegmentID segs (Suc i))"
  by pat_completeness auto
termination
  by (relation "measure (\<lambda>(segs, i). 65536 - i)") auto

definition newSegmentMeta :: segmentMeta where
  "newSegmentMeta =
     \<lparr>Full = False, PutRecords = 0, DeleteRecords = 0, DeletedKeys = 0, DeletedBytes = 0\<rparr>"

text \<open>The writable segment, if there is one.\<close>

definition writableSegment :: "datalog \<Rightarrow> (uint16 \<times> segment) option" where
  "writableSegment dl =
     (case curSeg dl of
        None \<Rightarrow> None
      | Some cur \<Rightarrow> (case segments dl cur of None \<Rightarrow> None | Some seg \<Rightarrow> Some (cur, seg)))"

text \<open>
  Rotation: the old writable segment is marked full, and a new empty segment with a new
  physical identifier and the next sequence number becomes the writable one. With no
  identifier left the datalog is full.
\<close>

definition datalog_rotate :: "datalog \<Rightarrow> error + datalog" where
  "datalog_rotate dl =
     (case nextWritableSegmentID (segments dl) 0 of
        None \<Rightarrow> Inl errFull
      | Some newID \<Rightarrow>
          let marked = (case writableSegment dl of
                          None \<Rightarrow> segments dl
                        | Some (cur, seg) \<Rightarrow>
                            (segments dl)(cur \<mapsto> seg\<lparr>seg_meta := (seg_meta seg)\<lparr>Full := True\<rparr>\<rparr>));
              new = \<lparr>seg_id = newID, seg_sequenceID = maxSequenceID dl + 1,
                     seg_meta = newSegmentMeta, seg_data = []\<rparr>
          in Inr (dl\<lparr>segments := marked(newID \<mapsto> new),
                     curSeg := Some newID,
                     maxSequenceID := maxSequenceID dl + 1\<rparr>))"

text \<open>
  \<open>put\<close>: the key is encoded as a record; when there is no writable segment, or the
  record would take it over the threshold, a new segment is rotated in first; the record
  is appended to the writable segment, and its location is returned: the segment and the
  offset of the record's start, counted from just past the header.
\<close>

definition datalog_put :: "byte list \<Rightarrow> datalog \<Rightarrow> error + (uint16 \<times> uint32 \<times> datalog)" where
  "datalog_put key dl =
     (case encodePutRecord key of
        None \<Rightarrow> Inl (Panic ''slice bounds out of range'')
      | Some data \<Rightarrow>
          (case (case writableSegment dl of
                   None \<Rightarrow> datalog_rotate dl
                 | Some (cur, seg) \<Rightarrow>
                     if length (seg_data seg) + length data \<le> maxSegmentSize then Inr dl
                     else datalog_rotate dl) of
             Inl err \<Rightarrow> Inl err
           | Inr dl1 \<Rightarrow>
               (case writableSegment dl1 of
                  None \<Rightarrow> Inl (Panic ''nil segment'')
                | Some (cur, seg) \<Rightarrow>
                    Inr (cur, of_nat (length (seg_data seg)),
                         dl1\<lparr>segments := (segments dl1)
                                (cur \<mapsto> seg\<lparr>seg_data := seg_data seg @ data,
                                            seg_meta := (seg_meta seg)
                                              \<lparr>PutRecords := PutRecords (seg_meta seg) + 1\<rparr>\<rparr>)\<rparr>))))"

text \<open>
  Decoding one record of the layout \<open>keySize (2 bytes) | key | CRC32 (4 bytes)\<close> at the
  start of a byte sequence, with its checksum verified: the key, or \<open>corrupted\<close> when
  the bytes end before the record does or the checksum is not the one of
  \<open>keySize | key\<close>.
\<close>

definition decodeRecord :: "byte list \<Rightarrow> error + byte list" where
  "decodeRecord s =
     (if length s < 2 then Inl errCorrupted
      else
        let keySize = unat (Uint16 (take 2 s)) in
        if length s < 2 + keySize + 4 then Inl errCorrupted
        else if Uint32 (take 4 (drop (2 + keySize) s)) \<noteq> ChecksumIEEE (take (2 + keySize) s)
        then Inl errCorrupted
        else Inr (take keySize (drop 2 s)))"

text \<open>
  \<open>readKey\<close>: seeks to the slot's offset in the slot's segment, decodes one record and
  returns its key; \<open>corrupted\<close> when there is no such segment, the record does not
  decode, or its key size is not the slot's.
\<close>

definition readKey :: "datalog \<Rightarrow> slot \<Rightarrow> error + byte list" where
  "readKey dl sl =
     (case segments dl (sl_segmentID sl) of
        None \<Rightarrow> Inl errCorrupted
      | Some seg \<Rightarrow>
          (case decodeRecord (drop (unat (sl_offset sl)) (seg_data seg)) of
             Inl err \<Rightarrow> Inl err
           | Inr key \<Rightarrow>
               if length key \<noteq> unat (sl_keySize sl) then Inl errCorrupted else Inr key))"

definition datalog_sync :: "datalog \<Rightarrow> error option" where
  "datalog_sync dl = flush_r dl"

section \<open>The database (the file of \<open>DB\<close>)\<close>

definition MaxKeyLength :: nat where
  "MaxKeyLength = 65535"

record Options =
  BackgroundSyncInterval :: int
  BackgroundCompactionInterval :: int

record Metrics =
  Puts :: int

text \<open>
  The struct \<open>DB\<close>. The mutex, the wait group and the compaction flag serve
  concurrency and have no field; the lock file handle is part of the outside world
  below; \<open>cancelBgWorker\<close> says whether the cancel function is set.
\<close>

record DB =
  opts :: Options
  index :: index
  datalog :: datalog
  hashSeed :: uint32
  metrics :: Metrics
  syncWrites :: bool
  cancelBgWorker :: bool

record dbMeta =
  HashSeed :: uint32

text \<open>
  \<open>hash.Sum32WithSeed\<close> is a pluggable hash function outside the repository's core:
  every operation that hashes takes it as its first argument \<open>H\<close>.
\<close>

type_synonym hashfn = "byte list \<Rightarrow> uint32 \<Rightarrow> uint32"

definition db_hash :: "hashfn \<Rightarrow> DB \<Rightarrow> byte list \<Rightarrow> uint32" where
  "db_hash H db data = H data (hashSeed db)"

text \<open>
  The closure that \<open>Has\<close> and \<open>HasOrPut\<close> hand to \<open>index.get\<close>; the captured
  variable \<open>found\<close> is its state.
\<close>

definition hasFn :: "DB \<Rightarrow> byte list \<Rightarrow> bool matchKeyFunc" where
  "hasFn db key sl found =
     (if (of_nat (length key) :: uint16) \<noteq> sl_keySize sl then ((False, None), found)
      else case readKey (datalog db) sl of
             Inl err \<Rightarrow> ((True, Some err), found)
           | Inr slKey \<Rightarrow>
               if key = slKey then ((True, None), True) else ((False, None), found))"

definition Has :: "hashfn \<Rightarrow> byte list \<Rightarrow> DB \<Rightarrow> bool \<times> error option" where
  "Has H key db =
     (let h = db_hash H db key in
      case index_get (index db) h (hasFn db key) False of
        (Some err, found) \<Rightarrow> (False, Some err)
      | (None, found) \<Rightarrow> (found, None))"

text \<open>The closure of \<open>DB.put\<close> captures nothing that it changes: its state is \<open>unit\<close>.\<close>

definition putFn :: "DB \<Rightarrow> byte list \<Rightarrow> unit matchKeyFunc" where
  "putFn db key cursl u =
     (if (of_nat (length key) :: uint16) \<noteq> sl_keySize cursl then ((False, None), u)
      else case readKey (datalog db) cursl of
             Inl err \<Rightarrow> ((True, Some err), u)
           | Inr slKey \<Rightarrow>
               if key = slKey then ((True, None), u) else ((False, None), u))"

definition put :: "slot \<Rightarrow> byte list \<Rightarrow> DB \<Rightarrow> error option \<times> DB" where
  "put sl key db =
     (case fst (index_put (index db) sl (putFn db key) ()) of
        Inl err \<Rightarrow> (Some err, db)
      | Inr idx \<Rightarrow> (None, db\<lparr>index := idx\<rparr>))"

definition sync :: "DB \<Rightarrow> error option" where
  "sync db = datalog_sync (datalog db)"

definition HasOrPut :: "hashfn \<Rightarrow> byte list \<Rightarrow> DB \<Rightarrow> (bool \<times> error option) \<times> DB" where
  "HasOrPut H key db =
     (if length key > MaxKeyLength then ((False, Some errKeyTooLarge), db)
      else
        let h = db_hash H db key in
        case index_get (index db) h (hasFn db key) False of
          (Some err, found) \<Rightarrow> ((False, Some err), db)
        | (None, found) \<Rightarrow>
            if \<not> found then
              (case datalog_put key (datalog db) of
                 Inl err \<Rightarrow> ((False, Some err), db)
               | Inr (segID, offset, dl) \<Rightarrow>
                   let db1 = db\<lparr>datalog := dl\<rparr>;
                       sl = \<lparr>sl_hash = h, sl_segmentID = segID,
                             sl_keySize = of_nat (length key), sl_offset = offset\<rparr>
                   in case put sl key db1 of
                        (Some err, db2) \<Rightarrow> ((False, Some err), db2)
                      | (None, db2) \<Rightarrow>
                          if syncWrites db2 then ((found, sync db2), db2)
                          else ((found, None), db2))
            else ((found, None), db))"

definition Put :: "hashfn \<Rightarrow> byte list \<Rightarrow> DB \<Rightarrow> error option \<times> DB" where
  "Put H key db =
     (if length key > MaxKeyLength then (Some errKeyTooLarge, db)
      else
        let h = db_hash H db key;
            db0 = db\<lparr>metrics := (metrics db)\<lparr>Puts := Puts (metrics db) + 1\<rparr>\<rparr>
        in case datalog_put key (datalog db0) of
             Inl err \<Rightarrow> (Some err, db0)
           | Inr (segID, offset, dl) \<Rightarrow>
               let db1 = db0\<lparr>datalog := dl\<rparr>;
                   sl = \<lparr>sl_hash = h, sl_segmentID = segID,
                         sl_keySize = of_nat (length key), sl_offset = offset\<rparr>
               in case put sl key db1 of
                    (Some err, db2) \<Rightarrow> (Some err, db2)
                  | (None, db2) \<Rightarrow>
                      if syncWrites db2 then (sync db2, db2) else (None, db2))"

definition Count :: "DB \<Rightarrow> uint32" where
  "Count db = index_count (index db)"

section \<open>Opening and closing\<close>

text \<open>
  \<open>Open\<close> and \<open>Close\<close> call into the file system and into parts of the repository
  that are not in the sources at hand (\<open>createLockFile\<close>'s file system,
  \<open>backupNonsegmentFiles\<close>, \<open>openIndex\<close>, \<open>openDatalog\<close>, \<open>hash.RandSeed\<close>,
  \<open>readGobFile\<close>, \<open>writeGobFile\<close>, \<open>recover\<close>, the \<open>close\<close> methods and
  \<open>Unlock\<close>). The outside world is a record: what each of these calls answers (any
  answer is possible, so every error branch of the source is a branch of the model), the
  content of the metadata file \<open>db.pmt\<close>, and the trace of the calls made, oldest first.
\<close>

datatype call =
    MkdirAll
  | CreateLockFile
  | BackupNonsegmentFiles
  | OpenIndex
  | OpenDatalog
  | RandSeed
  | ReadGobFile
  | Recover
  | StartBackgroundWorker
  | CancelBgWorker
  | WriteGobFile
  | DatalogClose
  | IndexClose
  | Unlock

record world =
  mkdirAll_r :: "error option"
  createLockFile_r :: "error + bool"
  backupNonsegmentFiles_r :: "error option"
  openIndex_r :: "error + index"
  openDatalog_r :: "error + datalog"
  randSeed_r :: "error + uint32"
  readGobFile_r :: "error option"
  recover_r :: "DB \<Rightarrow> error + DB"
  writeGobFile_r :: "error option"
  datalogClose_r :: "error option"
  indexClose_r :: "error option"
  unlock_r :: "error option"
  metaFile :: "dbMeta option"
  calls :: "call list"

definition called :: "call \<Rightarrow> world \<Rightarrow> world" where
  "called c w = w\<lparr>calls := calls w @ [c]\<rparr>"

text \<open>
  Modelled from the spec: the metadata file (\<open>writeGobFile\<close> and \<open>readGobFile\<close> are
  not in the sources at hand). A write that succeeds makes the record the content of the
  file; a read returns the content, and fails when the file system fails or there is no
  file.
\<close>

definition writeGobFile :: "dbMeta \<Rightarrow> world \<Rightarrow> error option \<times> world" where
  "writeGobFile m w =
     (case writeGobFile_r w of
        Some err \<Rightarrow> (Some err, called WriteGobFile w)
      | None \<Rightarrow> (None, (called WriteGobFile w)\<lparr>metaFile := Some m\<rparr>))"

definition readGobFile :: "world \<Rightarrow> (error + dbMeta) \<times> world" where
  "readGobFile w =
     (case readGobFile_r w of
        Some err \<Rightarrow> (Inl err, called ReadGobFile w)
      | None \<Rightarrow>
          (case metaFile w of
             None \<Rightarrow> (Inl ErrNotExist, called ReadGobFile w)
           | Some m \<Rightarrow> (Inr m, called ReadGobFile w)))"

definition writeMeta :: "DB \<Rightarrow> world \<Rightarrow> error option \<times> world" where
  "writeMeta db w = (let m = \<lparr>HashSeed = hashSeed db\<rparr> in writeGobFile m w)"

definition readMeta :: "DB \<Rightarrow> world \<Rightarrow> (error + DB) \<times> world" where
  "readMeta db w =
     (case readGobFile w of
        (Inl err, w1) \<Rightarrow> (Inl err, w1)
      | (Inr m, w1) \<Rightarrow> (Inr (db\<lparr>hashSeed := HashSeed m\<rparr>), w1))"

text \<open>
  \<open>createLockFile\<close>: the lock, whether the lock file was there already, or the error.
\<close>

definition createLockFile :: "world \<Rightarrow> (error + bool) \<times> world" where
  "createLockFile w = (createLockFile_r w, called CreateLockFile w)"

definition lock_Unlock :: "world \<Rightarrow> error option \<times> world" where
  "lock_Unlock w = (unlock_r w, called Unlock w)"

text \<open>
  The body of \<open>Open\<close> from the \<open>defer\<close> statement to \<open>return db, nil\<close>: every
  \<open>return nil, err\<close> is an \<open>Inl\<close>.
\<close>

definition Open_locked :: "Options \<Rightarrow> bool \<Rightarrow> world \<Rightarrow> (error + DB) \<times> world" where
  "Open_locked options acquiredExistingLock w0 =
     (case (if acquiredExistingLock
            then (backupNonsegmentFiles_r w0, called BackupNonsegmentFiles w0)
            else (None, w0)) of
        (Some err, w1) \<Rightarrow> (Inl err, w1)
      | (None, w1) \<Rightarrow>
     (case openIndex_r w1 of
        Inl err \<Rightarrow> (Inl (Wrap err ''opening index''), called OpenIndex w1)
      | Inr idx \<Rightarrow>
     (case openDatalog_r w1 of
        Inl err \<Rightarrow> (Inl (Wrap err ''opening datalog''), called OpenDatalog (called OpenIndex w1))
      | Inr dl \<Rightarrow>
     (let w2 = called OpenDatalog (called OpenIndex w1);
          db = \<lparr>opts = options, index = idx, datalog = dl, hashSeed = 0,
                metrics = \<lparr>Puts = 0\<rparr>,
                syncWrites = (BackgroundSyncInterval options = - 1),
                cancelBgWorker = False\<rparr>
      in
     (case (if index_count idx = 0
            then (case randSeed_r w2 of
                    Inl err \<Rightarrow> (Inl err, called RandSeed w2)
                  | Inr seed \<Rightarrow> (Inr (db\<lparr>hashSeed := seed\<rparr>), called RandSeed w2))
            else (case readMeta db w2 of
                    (Inl err, w3) \<Rightarrow> (Inl (Wrap err ''reading db meta''), w3)
                  | (Inr db1, w3) \<Rightarrow> (Inr db1, w3))) of
        (Inl err, w3) \<Rightarrow> (Inl err, w3)
      | (Inr db1, w3) \<Rightarrow>
     (case (if acquiredExistingLock
            then (case recover_r w3 db1 of
                    Inl err \<Rightarrow> (Inl (Wrap err ''recovering''), called Recover w3)
                  | Inr db2 \<Rightarrow> (Inr db2, called Recover w3))
            else (Inr db1, w3)) of
        (Inl err, w4) \<Rightarrow> (Inl err, w4)
      | (Inr db2, w4) \<Rightarrow>
          if BackgroundSyncInterval (opts db2) > 0 \<or> BackgroundCompactionInterval (opts db2) > 0
          then (Inr (db2\<lparr>cancelBgWorker := True\<rparr>), called StartBackgroundWorker w4)
          else (Inr db2, w4)))))))"

text \<open>
  \<open>Open\<close>: the directory, the lock file, and the body under the deferred function:
  \<open>clean\<close> is \<open>lock.Unlock\<close> on every return but the last, where it is \<open>nil\<close>; the
  deferred call drops the error of \<open>Unlock\<close>.
\<close>

definition Open :: "Options \<Rightarrow> world \<Rightarrow> (error + DB) \<times> world" where
  "Open options w =
     (case mkdirAll_r w of
        Some err \<Rightarrow> (Inl err, called MkdirAll w)
      | None \<Rightarrow>
          (case createLockFile (called MkdirAll w) of
             (Inl err, w1) \<Rightarrow>
               (Inl (Wrap (if err = ErrExist then errLocked else err) ''creating lock file''), w1)
           | (Inr acquiredExistingLock, w1) \<Rightarrow>
               (case Open_locked options acquiredExistingLock w1 of
                  (Inl err, w2) \<Rightarrow> (Inl err, snd (lock_Unlock w2))
                | (Inr db, w2) \<Rightarrow> (Inr db, w2))))"

text \<open>
  \<open>Close\<close>. The background worker is cancelled and awaited first; then the four steps,
  each under \<open>if err := ...; err != nil { return err }\<close>.
\<close>

definition Close :: "DB \<Rightarrow> world \<Rightarrow> error option \<times> world" where
  "Close db w =
     (let w0 = (if cancelBgWorker db then called CancelBgWorker w else w) in
      case writeMeta db w0 of
        (Some err, w1) \<Rightarrow> (Some err, w1)
      | (None, w1) \<Rightarrow>
          (case datalogClose_r w1 of
             Some err \<Rightarrow> (Some err, called DatalogClose w1)
           | None \<Rightarrow>
               (case indexClose_r w1 of
                  Some err \<Rightarrow> (Some err, called IndexClose (called DatalogClose w1))
                | None \<Rightarrow>
                    (case lock_Unlock (called IndexClose (called DatalogClose w1)) of
                       (Some err, w2) \<Rightarrow> (Some err, w2)
                     | (None, w2) \<Rightarrow> (None, w2)))))"

text \<open>
  The record layout of the data model, as a predicate on a byte sequence: the size in the
  first two bytes is the length of the key, and the last four bytes are the checksum of
  the bytes before them.
\<close>

definition validRecord :: "byte list \<Rightarrow> bool" where
  "validRecord d \<longleftrightarrow>
     length d = unat (Uint16 (take 2 d)) + 6
     \<and> Uint32 (drop (length d - 4) d) = ChecksumIEEE (take (length d - 4) d)"

text \<open>
  A single-bit flip of a stored byte sequence, as the corruption claim speaks of it: bit
  \<open>j\<close> of byte \<open>i\<close> is inverted.
\<close>

definition flipBit :: "nat \<Rightarrow> nat \<Rightarrow> byte list \<Rightarrow> byte list" where
  "flipBit i j d = d[i := (d ! i) XOR push_bit j 1]"

section \<open>Sample inputs\<close>

text \<open>
  Concrete inputs for the closed instances below: a hash function (the seed plus the
  length of the data), an empty datalog, an empty database with seed 7, and the keys
  \<open>a\<close> and \<open>b\<close>.
\<close>

definition sampleHash :: hashfn where
  "sampleHash d seed = seed + of_nat (length d)"

definition emptyDatalog :: datalog where
  "emptyDatalog = \<lparr>segments = Map.empty, curSeg = None, maxSequenceID = 0, flush_r = None\<rparr>"

definition emptyDB :: DB where
  "emptyDB = \<lparr>opts = \<lparr>BackgroundSyncInterval = 0, BackgroundCompactionInterval = 0\<rparr>,
               index = [], datalog = emptyDatalog, hashSeed = 7, metrics = \<lparr>Puts = 0\<rparr>,
               syncWrites = False, cancelBgWorker = False\<rparr>"

definition keyA :: "byte list" where
  "keyA = [0x61]"

definition keyB :: "byte list" where
  "keyB = [0x62]"

definition longKey :: "byte list" where
  "longKey = replicate (MaxKeyLength + 1) 0"

text \<open>
  A segment with physical identifier 3, and an iterator over a segment whose bytes behind
  the header are given; 512 stands for the header size. \<open>key8\<close> is a key whose last
  four bytes are the checksum of the two bytes \<open>00 00\<close>, \<open>rec8\<close> is its encoded
  record, and \<open>stream10\<close> is a stream of ten bytes.
\<close>

definition sampleSegment :: "byte list \<Rightarrow> segment" where
  "sampleSegment bs =
     \<lparr>seg_id = 3, seg_sequenceID = 1,
      seg_meta = \<lparr>Full = False, PutRecords = 1, DeleteRecords = 0, DeletedKeys = 0,
                  DeletedBytes = 0\<rparr>,
      seg_data = bs\<rparr>"

definition sampleIterator :: "byte list \<Rightarrow> segmentIterator" where
  "sampleIterator bs = newSegmentIterator 512 (sampleSegment bs)"

definition recA :: "byte list" where
  "recA = [0x01, 0x00, 0x61, 0xEB, 0xE2, 0x36, 0xC4]"

definition key8 :: "byte list" where
  "key8 = [0x00, 0x00, 0x00, 0x00, 0xFF, 0x12, 0xD9, 0x41]"

definition rec8 :: "byte list" where
  "rec8 = [0x08, 0x00, 0x00, 0x00, 0x00, 0x00, 0xFF, 0x12, 0xD9, 0x41, 0x3D, 0x56, 0xDB, 0x60]"

definition stream10 :: "byte list" where
  "stream10 = [0x00, 0x00, 0x09, 0x09, 0x09, 0x09, 0xFF, 0x12, 0xD9, 0x41]"


definition flippedStream :: "byte list" where
  "flippedStream = [0x01, 0x00, 0x09, 0x09, 0x09, 0x09, 0x60, 0xEB, 0xE2, 0x36, 0xC4]"

section \<open>Little-endian integers and the checksum: lemmas\<close>

text \<open>
  A shift step of the checksum register is injective and linear over XOR; hence the
  table-driven update of one byte is eight shift steps of the register XOR the byte, and
  is injective in the register and in the byte. Two inputs that differ in one byte have
  different checksums.
\<close>

lemma crc_shift_alt:
  "crc_shift c = drop_bit 1 c XOR (if bit c 0 then 0xedb88320 else 0)"
  by (simp add: crc_shift_def and_one_eq bit_0 mod_2_eq_odd)

lemma poly_bit31: "bit (0xedb88320 :: uint32) 31"
  by simp

lemma drop_bit31: "\<not> bit (drop_bit 1 (c :: uint32)) 31"
  by (auto simp: bit_simps dest: bit_imp_le_length)

lemma xor_right_cancel_word: "(a :: uint32) XOR p = b XOR p \<Longrightarrow> a = b"
proof -
  assume "a XOR p = b XOR p"
  then have "(a XOR p) XOR p = (b XOR p) XOR p" by simp
  then show "a = b" by (simp add: xor.assoc)
qed

lemma crc_shift_bit31: "bit (crc_shift c) 31 = bit c 0"
  using poly_bit31 drop_bit31 [of c]
  by (simp add: crc_shift_alt bit_xor_iff)

lemma word_bit0_drop1: 
  fixes a b :: uint32
  assumes "bit a 0 = bit b 0" "drop_bit 1 a = drop_bit 1 b"
  shows "a = b"
proof (rule bit_word_eqI)
  fix n assume "n < LENGTH(32)"
  show "bit a n = bit b n"
  proof (cases n)
    case 0 then show ?thesis using assms by simp
  next
    case (Suc m)
    have "bit (drop_bit 1 a) m = bit (drop_bit 1 b) m" using assms by simp
    then show ?thesis using Suc by (simp add: bit_drop_bit_eq)
  qed
qed

lemma crc_shift_inj: "crc_shift a = crc_shift b \<Longrightarrow> a = b"
proof -
  assume e: "crc_shift a = crc_shift b"
  then have b0: "bit a 0 = bit b 0"
    using crc_shift_bit31 [of a] crc_shift_bit31 [of b] by simp
  with e have "drop_bit 1 a = drop_bit 1 b"
    by (auto simp: crc_shift_alt split: if_splits dest: xor_right_cancel_word)
  with b0 show "a = b" by (rule word_bit0_drop1)
qed

lemma crc_shift_funpow_inj: "(crc_shift ^^ n) a = (crc_shift ^^ n) b \<Longrightarrow> a = b"
  by (induction n arbitrary: a b) (auto dest: crc_shift_inj)

lemma crc_shift_xor: "crc_shift (a XOR b) = crc_shift a XOR crc_shift b"
  by (simp add: crc_shift_alt bit_xor_iff xor.assoc xor.left_commute)

lemma crc_shift_funpow_xor:
  "(crc_shift ^^ n) (a XOR b) = (crc_shift ^^ n) a XOR (crc_shift ^^ n) b"
  by (induction n arbitrary: a b) (simp_all add: crc_shift_xor)

lemma crc_shift_funpow_low_zero:
  "take_bit n h = 0 \<Longrightarrow> (crc_shift ^^ n) h = drop_bit n h"
proof (induction n arbitrary: h)
  case 0
  then show ?case by simp
next
  case (Suc n)
  have "bit (take_bit (Suc n) h) 0 = bit h 0"
    by (simp add: bit_take_bit_iff)
  with Suc.prems have nb: "\<not> bit h 0"
    by simp
  have "take_bit n (drop_bit 1 h) = drop_bit 1 (take_bit (Suc n) h)"
    by (simp add: drop_bit_take_bit)
  with Suc.prems have "take_bit n (drop_bit 1 h) = 0"
    by simp
  then have "(crc_shift ^^ n) (drop_bit 1 h) = drop_bit n (drop_bit 1 h)"
    by (rule Suc.IH)
  moreover have "crc_shift h = drop_bit 1 h" using nb by (simp add: crc_shift_alt)
  ultimately show ?case by (simp add: funpow_swap1)
qed


lemma byte_split:
  "(c :: uint32) XOR ucast (v :: byte) = ucast ((ucast c :: byte) XOR v) XOR push_bit 8 (drop_bit 8 c)"
  by (rule bit_word_eqI) (auto simp: bit_simps dest: bit_imp_le_length)

lemma crc_update_bitwise: "crc_update c v = (crc_shift ^^ 8) (c XOR ucast v)"
proof -
  have "take_bit 8 (push_bit 8 (drop_bit 8 c)) = 0"
    by (simp add: take_bit_push_bit)
  then have "(crc_shift ^^ 8) (push_bit 8 (drop_bit 8 c)) = drop_bit 8 (push_bit 8 (drop_bit 8 c))"
    by (rule crc_shift_funpow_low_zero)
  also have "\<dots> = drop_bit 8 c"
    by (rule bit_word_eqI) (auto simp: bit_simps dest: bit_imp_le_length)
  finally have hi: "(crc_shift ^^ 8) (push_bit 8 (drop_bit 8 c)) = drop_bit 8 c" .
  have "(crc_shift ^^ 8) (c XOR ucast v)
      = (crc_shift ^^ 8) (ucast ((ucast c :: byte) XOR v) XOR push_bit 8 (drop_bit 8 c))"
    by (simp only: byte_split [of c v])
  also have "\<dots> = (crc_shift ^^ 8) (ucast ((ucast c :: byte) XOR v)) XOR drop_bit 8 c"
    by (simp only: crc_shift_funpow_xor hi)
  finally show ?thesis
    by (simp only: crc_update_def IEEETable_def)
qed

lemma ucast_byte_back: "(ucast (ucast (a :: byte) :: uint32) :: byte) = a"
  by (rule bit_word_eqI) (auto simp: bit_simps)

lemma ucast_byte_inj: "(ucast (a :: byte) :: uint32) = ucast b \<Longrightarrow> a = b"
proof -
  assume "(ucast a :: uint32) = ucast b"
  then have "(ucast (ucast a :: uint32) :: byte) = ucast (ucast b :: uint32)"
    by (rule arg_cong)
  then show "a = b"
    by (simp only: ucast_byte_back)
qed

lemma crc_update_inj_state: "crc_update c v = crc_update d v \<Longrightarrow> c = d"
proof -
  assume "crc_update c v = crc_update d v"
  then have "(crc_shift ^^ 8) (c XOR ucast v) = (crc_shift ^^ 8) (d XOR ucast v)"
    by (simp only: crc_update_bitwise)
  then have "c XOR ucast v = d XOR ucast v"
    by (rule crc_shift_funpow_inj)
  then show "c = d"
    by (rule xor_right_cancel_word)
qed

lemma crc_update_inj_byte: "crc_update c v = crc_update c w \<Longrightarrow> v = w"
proof -
  assume "crc_update c v = crc_update c w"
  then have "(crc_shift ^^ 8) (c XOR ucast v) = (crc_shift ^^ 8) (c XOR ucast w)"
    by (simp only: crc_update_bitwise)
  then have "c XOR ucast v = c XOR ucast w"
    by (rule crc_shift_funpow_inj)
  then have "ucast v XOR c = ucast w XOR c"
    by (simp only: xor.commute)
  then have "(ucast v :: uint32) = ucast w"
    by (rule xor_right_cancel_word)
  then show "v = w"
    by (rule ucast_byte_inj)
qed

lemma foldl_crc_inj_state:
  "foldl crc_update c p = foldl crc_update d p \<Longrightarrow> c = d"
  by (induction p arbitrary: c d) (auto dest: crc_update_inj_state)

lemma ChecksumIEEE_byte_change:
  assumes "a \<noteq> b"
  shows "ChecksumIEEE (xs @ a # ys) \<noteq> ChecksumIEEE (xs @ b # ys)"
proof
  assume "ChecksumIEEE (xs @ a # ys) = ChecksumIEEE (xs @ b # ys)"
  then have "foldl crc_update (crc_update (foldl crc_update (NOT 0) xs) a) ys
           = foldl crc_update (crc_update (foldl crc_update (NOT 0) xs) b) ys"
    by (simp add: ChecksumIEEE_def)
  then have "crc_update (foldl crc_update (NOT 0) xs) a = crc_update (foldl crc_update (NOT 0) xs) b"
    by (rule foldl_crc_inj_state)
  then have "a = b" by (rule crc_update_inj_byte)
  with assms show False by simp
qed

text \<open>The little-endian decoders are injective; a flipped bit changes its byte.\<close>

lemma PutUint16_Uint16: "PutUint16 (Uint16 [a, b]) = [a, b]"
proof -
  have "(ucast (ucast a OR push_bit 8 (ucast b) :: uint16) :: byte) = a"
    by (rule bit_word_eqI) (auto simp: bit_simps)
  moreover have "(ucast (drop_bit 8 (ucast a OR push_bit 8 (ucast b) :: uint16)) :: byte) = b"
    by (rule bit_word_eqI) (auto simp: bit_simps dest: bit_imp_le_length)
  ultimately show ?thesis
    by (simp add: PutUint16_def Uint16_def)
qed

lemma PutUint32_Uint32: "PutUint32 (Uint32 [a, b, c, d]) = [a, b, c, d]"
proof -
  let ?w = "ucast a OR push_bit 8 (ucast b) OR push_bit 16 (ucast c) OR push_bit 24 (ucast d) :: uint32"
  have "(ucast ?w :: byte) = a"
    by (rule bit_word_eqI) (auto simp: bit_simps)
  moreover have "(ucast (drop_bit 8 ?w) :: byte) = b"
    by (rule bit_word_eqI) (auto simp: bit_simps dest: bit_imp_le_length)
  moreover have "(ucast (drop_bit 16 ?w) :: byte) = c"
    by (rule bit_word_eqI) (auto simp: bit_simps dest: bit_imp_le_length)
  moreover have "(ucast (drop_bit 24 ?w) :: byte) = d"
    by (rule bit_word_eqI) (auto simp: bit_simps dest: bit_imp_le_length)
  ultimately show ?thesis
    by (simp add: PutUint32_def Uint32_def)
qed

lemma list2: "length l = 2 \<Longrightarrow> \<exists>a b. l = [a, b]"
  by (auto simp: eval_nat_numeral length_Suc_conv)

lemma list4: "length l = 4 \<Longrightarrow> \<exists>a b c d. l = [a, b, c, d]"
  by (auto simp: eval_nat_numeral length_Suc_conv)

lemma Uint16_inj:
  assumes "length l = 2" "length m = 2" "Uint16 l = Uint16 m"
  shows "l = m"
proof -
  from assms(1) obtain a b where l: "l = [a, b]"
    using list2 by blast
  from assms(2) obtain c d where m: "m = [c, d]"
    using list2 by blast
  from assms(3) have "PutUint16 (Uint16 [a, b]) = PutUint16 (Uint16 [c, d])"
    by (simp only: l m)
  then have "[a, b] = [c, d]"
    by (simp only: PutUint16_Uint16)
  then show ?thesis
    by (simp only: l m)
qed

lemma Uint32_inj:
  assumes "length l = 4" "length m = 4" "Uint32 l = Uint32 m"
  shows "l = m"
proof -
  from assms(1) obtain a b c d where l: "l = [a, b, c, d]"
    using list4 by blast
  from assms(2) obtain e f g h where m: "m = [e, f, g, h]"
    using list4 by blast
  from assms(3) have "PutUint32 (Uint32 [a, b, c, d]) = PutUint32 (Uint32 [e, f, g, h])"
    by (simp only: l m)
  then have "[a, b, c, d] = [e, f, g, h]"
    by (simp only: PutUint32_Uint32)
  then show ?thesis
    by (simp only: l m)
qed

lemma flipped_byte: 
  assumes "j < 8" shows "(b :: byte) XOR push_bit j 1 \<noteq> b"
proof
  assume "b XOR push_bit j 1 = b"
  then have "bit (b XOR push_bit j 1) j = bit b j" by simp
  then show False using assms by (simp add: bit_simps)
qed

lemma length_flipBit: "length (flipBit i j d) = length d"
  by (simp add: flipBit_def)

lemma flipBit_nth: "i < length d \<Longrightarrow> j < 8 \<Longrightarrow> flipBit i j d ! i \<noteq> d ! i"
proof -
  assume a: "i < length d" "j < 8"
  then have "flipBit i j d ! i = d ! i XOR push_bit j 1"
    by (simp only: flipBit_def nth_list_update_eq)
  with a(2) show ?thesis
    by (simp only: flipped_byte not_False_eq_True)
qed

text \<open>Evaluating the checksum of given bytes: every step on numerals.\<close>

lemma funpow_8: "(f ^^ 8) x = f (f (f (f (f (f (f (f x)))))))"
  by (simp add: eval_nat_numeral)

lemma ChecksumIEEE_eval: "ChecksumIEEE p = foldl crc_update 0xFFFFFFFF p XOR 0xFFFFFFFF"
proof -
  have m: "(0xFFFFFFFF :: uint32) = - 1"
    by simp
  show ?thesis
    unfolding ChecksumIEEE_def m by (simp add: bit.xor_one_right)
qed

lemmas crc_eval = ChecksumIEEE_eval crc_update_def IEEETable_def funpow_8 crc_shift_def

lemma crc_00: "ChecksumIEEE [0, 0] = 0x41D912FF"
  by (simp add: crc_eval)

lemma crc_recA: "ChecksumIEEE [0x01, 0x00, 0x61] = 0xC436E2EB"
  by (simp add: crc_eval)

lemma crc_rec8:
  "ChecksumIEEE [0x08, 0x00, 0x00, 0x00, 0x00, 0x00, 0xFF, 0x12, 0xD9, 0x41] = 0x60DB563D"
  by (simp add: crc_eval)

section \<open>The record decoder: lemmas\<close>

lemma Uint16_PutUint16: "Uint16 (PutUint16 v) = v"
  unfolding Uint16_def PutUint16_def
  by (rule bit_word_eqI) (auto simp: bit_simps)

lemma Uint32_PutUint32: "Uint32 (PutUint32 v) = v"
  unfolding Uint32_def PutUint32_def
  apply (rule bit_word_eqI)
  subgoal for n by (cases "n < 8"; cases "n < 16"; cases "n < 24"; auto simp: bit_simps not_less)
  done

lemma unat_uint16_less: "unat (w :: uint16) < 65536"
  using unsigned_less [of w, where 'a = nat] by simp

lemma unat_recordSize: "unat (encodedRecordSize (ucast (w :: uint16))) = unat w + 6"
  using unat_uint16_less [of w]
  by (simp add: encodedRecordSize_def unat_word_ariths unsigned_ucast_eq take_bit_nat_eq_self)

lemma unat_ucast_16_32: "unat (ucast (w :: uint16) :: uint32) = unat w"
  using unat_uint16_less [of w]
  by (simp add: unsigned_ucast_eq take_bit_nat_eq_self)

lemma length_PutUint16: "length (PutUint16 v) = 2"
  by (simp add: PutUint16_def)

lemma length_PutUint32: "length (PutUint32 v) = 4"
  by (simp add: PutUint32_def)

lemma encodePutRecord_Some:
  assumes "length k \<le> 65535"
  shows "encodePutRecord k =
           Some (PutUint16 (of_nat (length k)) @ k
                 @ PutUint32 (ChecksumIEEE (PutUint16 (of_nat (length k)) @ k)))"
  using assms
  by (simp add: encodePutRecord_def encodedRecordSize_def Let_def unat_word_ariths unat_of_nat)

lemma ReadFull_6:
  "6 \<le> length r \<Longrightarrow> ReadFull r 6 = (Inr (take 6 r), drop 6 r)"
  by (auto simp: ReadFull_def)

lemma next_prefix:
  assumes "6 \<le> length (it_r it)"
  shows "next it =
     (case ReadFull (drop 6 (it_r it)) (unat (Uint16 (take 2 (it_r it))) + 4) of
        (Inl err, r2) \<Rightarrow> (Inl err, it\<lparr>it_r := r2\<rparr>)
      | (Inr rest, r2) \<Rightarrow>
          (let data = take 2 (it_r it) @ rest
           in if Uint32 (drop (length data - 4) data) \<noteq> ChecksumIEEE (take (length data - 4) data)
              then (Inl errCorrupted, it\<lparr>it_r := r2\<rparr>)
              else (Inr \<lparr>rec_segmentID = seg_id (it_f it), rec_offset = it_offset it,
                         rec_data = data,
                         rec_key = take (unat (Uint16 (take 2 (it_r it)))) (drop 2 data)\<rparr>,
                    it\<lparr>it_offset := it_offset it
                                       + encodedRecordSize (ucast (Uint16 (take 2 (it_r it)))),
                        it_r := r2\<rparr>)))"
  using assms
  by (simp add: next_def ReadFull_6 Let_def unat_recordSize unat_ucast_16_32 min_def add.commute
           split: prod.split sum.split)

lemma next_empty: "it_r it = [] \<Longrightarrow> next it = (Inl ErrIterationDone, it)"
  by (simp add: next_def ReadFull_def)

lemma next_short:
  "it_r it \<noteq> [] \<Longrightarrow> length (it_r it) < 6 \<Longrightarrow> next it = (Inl ErrUnexpectedEOF, it\<lparr>it_r := []\<rparr>)"
  by (simp add: next_def ReadFull_def)

lemma next_prefix_only:
  "length (it_r it) = 6 \<Longrightarrow> next it = (Inl EOF, it\<lparr>it_r := []\<rparr>)"
  by (simp add: next_prefix ReadFull_def)

lemma next_truncated:
  "6 < length (it_r it) \<Longrightarrow> length (it_r it) < unat (Uint16 (take 2 (it_r it))) + 10 \<Longrightarrow>
   next it = (Inl ErrUnexpectedEOF, it\<lparr>it_r := []\<rparr>)"
proof -
  assume a: "6 < length (it_r it)" "length (it_r it) < unat (Uint16 (take 2 (it_r it))) + 10"
  then have "length (it_r it) - 6 < unat (Uint16 (take 2 (it_r it))) + 4"
    by arith
  with a show ?thesis
    by (simp add: next_prefix ReadFull_def)
qed

lemma next_complete:
  assumes "unat (Uint16 (take 2 (it_r it))) + 10 \<le> length (it_r it)"
  shows "next it =
     (let keySize = unat (Uint16 (take 2 (it_r it)));
          data = take 2 (it_r it) @ take (keySize + 4) (drop 6 (it_r it))
      in if Uint32 (drop (keySize + 2) data) \<noteq> ChecksumIEEE (take (keySize + 2) data)
         then (Inl errCorrupted, it\<lparr>it_r := drop (keySize + 10) (it_r it)\<rparr>)
         else (Inr \<lparr>rec_segmentID = seg_id (it_f it), rec_offset = it_offset it,
                    rec_data = data, rec_key = take keySize (drop 2 data)\<rparr>,
               it\<lparr>it_offset := it_offset it + encodedRecordSize (ucast (Uint16 (take 2 (it_r it)))),
                   it_r := drop (keySize + 10) (it_r it)\<rparr>))"
proof -
  let ?ks = "unat (Uint16 (take 2 (it_r it)))"
  have 6: "6 \<le> length (it_r it)" using assms by simp
  have rf: "ReadFull (drop 6 (it_r it)) (?ks + 4)
          = (Inr (take (?ks + 4) (drop 6 (it_r it))), drop (?ks + 10) (it_r it))"
    using assms by (auto simp: ReadFull_def add.commute)
  have len: "length (take 2 (it_r it) @ take (?ks + 4) (drop 6 (it_r it))) = ?ks + 6"
    using assms by simp
  show ?thesis
    unfolding next_prefix [OF 6] rf
    by (simp only: prod.case sum.case Let_def len) simp
qed

text \<open>A record comes only from a complete read, and satisfies the layout.\<close>

lemma next_incomplete_isl:
  assumes "\<not> unat (Uint16 (take 2 (it_r it))) + 10 \<le> length (it_r it)"
  shows "isl (fst (next it))"
proof (cases "it_r it = []")
  case True
  then show ?thesis
    by (simp add: next_empty)
next
  case ne: False
  show ?thesis
  proof (cases "length (it_r it) < 6")
    case True
    with ne show ?thesis
      by (simp add: next_short)
  next
    case ge: False
    show ?thesis
    proof (cases "length (it_r it) = 6")
      case True
      then show ?thesis
        by (simp add: next_prefix_only)
    next
      case False
      with ge have g: "6 < length (it_r it)"
        by simp
      from assms have l: "length (it_r it) < unat (Uint16 (take 2 (it_r it))) + 10"
        by simp
      show ?thesis
        by (simp add: next_truncated [OF g l])
    qed
  qed
qed

lemma next_Inr_complete:
  assumes "next it = (Inr rec, it')"
  shows "unat (Uint16 (take 2 (it_r it))) + 10 \<le> length (it_r it)"
proof (rule ccontr)
  assume "\<not> unat (Uint16 (take 2 (it_r it))) + 10 \<le> length (it_r it)"
  then have "isl (fst (next it))"
    by (rule next_incomplete_isl)
  moreover have "\<not> isl (fst (next it))"
    by (simp add: assms)
  ultimately show False
    by blast
qed

lemma next_Inr:
  assumes "next it = (Inr rec, it')"
  shows "rec_data rec = take 2 (it_r it) @ take (unat (Uint16 (take 2 (it_r it))) + 4) (drop 6 (it_r it))"
    and "Uint32 (drop (unat (Uint16 (take 2 (it_r it))) + 2) (rec_data rec))
           = ChecksumIEEE (take (unat (Uint16 (take 2 (it_r it))) + 2) (rec_data rec))"
    and "rec_key rec = take (unat (Uint16 (take 2 (it_r it)))) (drop 2 (rec_data rec))"
    and "rec_offset rec = it_offset it"
    and "rec_segmentID rec = seg_id (it_f it)"
    and "it_offset it' = it_offset it + encodedRecordSize (ucast (Uint16 (take 2 (it_r it))))"
  using assms next_complete [OF next_Inr_complete [OF assms]]
  by (auto simp: Let_def split: if_splits)

lemma next_valid:
  assumes "next it = (Inr rec, it')"
  shows "validRecord (rec_data rec)"
proof -
  let ?ks = "unat (Uint16 (take 2 (it_r it)))"
  have c: "?ks + 10 \<le> length (it_r it)"
    using assms by (rule next_Inr_complete)
  have d: "rec_data rec = take 2 (it_r it) @ take (?ks + 4) (drop 6 (it_r it))"
    using assms by (rule next_Inr(1))
  have len: "length (rec_data rec) = ?ks + 6"
    using c by (simp add: d)
  have t2: "take 2 (rec_data rec) = take 2 (it_r it)"
    using c by (simp add: d)
  show ?thesis
    using next_Inr(2) [OF assms] by (simp add: validRecord_def len t2)
qed

lemma encodePutRecord_valid:
  assumes "length k \<le> 65535" "encodePutRecord k = Some d"
  shows "validRecord d"
proof -
  have d: "d = PutUint16 (of_nat (length k)) @ k
               @ PutUint32 (ChecksumIEEE (PutUint16 (of_nat (length k)) @ k))"
    using assms by (simp add: encodePutRecord_Some)
  have u: "unat (of_nat (length k) :: uint16) = length k"
    using assms(1) by (simp add: unat_of_nat)
  show ?thesis
    by (simp add: validRecord_def d length_PutUint16 length_PutUint32 Uint16_PutUint16
          Uint32_PutUint32 u)
qed

text \<open>
  A sequence that satisfies the layout does not satisfy it with one bit flipped: the flip
  hits the size and key bytes, which the checksum covers, or the checksum bytes.
\<close>

lemma validRecord_length: "validRecord d \<Longrightarrow> 6 \<le> length d"
  unfolding validRecord_def by (elim conjE) linarith

lemma validRecord_checksum:
  "validRecord d \<Longrightarrow> Uint32 (drop (length d - 4) d) = ChecksumIEEE (take (length d - 4) d)"
  unfolding validRecord_def by (elim conjE)

lemma flipBit_invalid_checksum:
  assumes v: "validRecord d" and v': "validRecord (flipBit i j d)"
    and i: "length d - 4 \<le> i" "i < length d" and j: "j < 8"
  shows False
proof -
  let ?n = "length d"
  have n6: "6 \<le> length d"
    using v by (rule validRecord_length)
  have tk: "take (?n - 4) (flipBit i j d) = take (?n - 4) d"
    using i(1) unfolding flipBit_def by (rule take_update_cancel)
  have "Uint32 (drop (length (flipBit i j d) - 4) (flipBit i j d))
          = ChecksumIEEE (take (length (flipBit i j d) - 4) (flipBit i j d))"
    using v' by (rule validRecord_checksum)
  then have "Uint32 (drop (?n - 4) (flipBit i j d)) = ChecksumIEEE (take (?n - 4) d)"
    by (simp only: length_flipBit tk)
  also have "\<dots> = Uint32 (drop (?n - 4) d)"
    using v by (rule validRecord_checksum [symmetric])
  finally have "Uint32 (drop (?n - 4) (flipBit i j d)) = Uint32 (drop (?n - 4) d)" .
  moreover have "length (drop (?n - 4) (flipBit i j d)) = 4"
    using n6 by (simp add: length_flipBit)
  moreover have "length (drop (?n - 4) d) = 4"
    using n6 by simp
  ultimately have "drop (?n - 4) (flipBit i j d) = drop (?n - 4) d"
    by (rule Uint32_inj [rotated 2])
  then have "drop (?n - 4) (flipBit i j d) ! (i - (?n - 4)) = drop (?n - 4) d ! (i - (?n - 4))"
    by (rule arg_cong)
  moreover have "drop (?n - 4) (flipBit i j d) ! (i - (?n - 4)) = flipBit i j d ! i"
    using i by (simp add: length_flipBit)
  moreover have "drop (?n - 4) d ! (i - (?n - 4)) = d ! i"
    using i by simp
  moreover have "flipBit i j d ! i \<noteq> d ! i"
    using i(2) j by (rule flipBit_nth)
  ultimately show False
    by metis
qed

lemma flipBit_invalid_key:
  assumes v: "validRecord d" and v': "validRecord (flipBit i j d)"
    and i: "i < length d - 4" and j: "j < 8"
  shows False
proof -
  let ?n = "length d"
  let ?d' = "flipBit i j d"
  have il: "i < length d"
    using i by simp
  have it: "i < length (take (?n - 4) d)"
    using i by simp
  have ne: "?d' ! i \<noteq> d ! i"
    using il j by (rule flipBit_nth)
  have dr: "drop (?n - 4) ?d' = drop (?n - 4) d"
    using i unfolding flipBit_def by (rule drop_update_cancel)
  have tk: "take (?n - 4) d = take i (take (?n - 4) d) @ d ! i # drop (Suc i) (take (?n - 4) d)"
    using id_take_nth_drop [OF it] i by simp
  have "take (?n - 4) ?d' = (take (?n - 4) d)[i := d ! i XOR push_bit j 1]"
    unfolding flipBit_def by (rule take_update_swap)
  also have "\<dots> = take i (take (?n - 4) d) @ (d ! i XOR push_bit j 1) # drop (Suc i) (take (?n - 4) d)"
    using it by (rule upd_conv_take_nth_drop)
  finally have tk': "take (?n - 4) ?d'
       = take i (take (?n - 4) d) @ (d ! i XOR push_bit j 1) # drop (Suc i) (take (?n - 4) d)" .
  have nb: "d ! i XOR push_bit j 1 \<noteq> d ! i"
    using j by (rule flipped_byte)
  have "ChecksumIEEE (take (?n - 4) ?d') \<noteq> ChecksumIEEE (take (?n - 4) d)"
    by (subst tk', subst tk) (rule ChecksumIEEE_byte_change [OF nb])
  moreover have "Uint32 (drop (length ?d' - 4) ?d') = ChecksumIEEE (take (length ?d' - 4) ?d')"
    using v' by (rule validRecord_checksum)
  then have "Uint32 (drop (?n - 4) d) = ChecksumIEEE (take (?n - 4) ?d')"
    by (simp only: length_flipBit dr)
  moreover have "Uint32 (drop (?n - 4) d) = ChecksumIEEE (take (?n - 4) d)"
    using v by (rule validRecord_checksum)
  ultimately show False
    by metis
qed

lemma flipBit_invalid:
  assumes "validRecord d" and "i < length d" and "j < 8"
  shows "\<not> validRecord (flipBit i j d)"
proof
  assume v': "validRecord (flipBit i j d)"
  have n6: "6 \<le> length d"
    using assms(1) by (rule validRecord_length)
  show False
  proof (cases "i < length d - 4")
    case True
    with assms v' show False
      by (intro flipBit_invalid_key)
  next
    case False
    then have "length d - 4 \<le> i"
      by simp
    with assms v' show False
      by (intro flipBit_invalid_checksum)
  qed
qed

text \<open>The sample records and streams.\<close>

lemma encodePutRecord_keyA: "encodePutRecord keyA = Some recA"
  by (simp add: encodePutRecord_Some keyA_def recA_def PutUint16_def PutUint32_def crc_recA)

lemma encodePutRecord_key8: "encodePutRecord key8 = Some rec8"
  by (simp add: encodePutRecord_Some key8_def rec8_def PutUint16_def PutUint32_def crc_rec8)

lemma Uint16_00: "Uint16 [0, 0] = 0"
  by (simp add: Uint16_def)

lemma Uint32_crc00: "Uint32 [0xFF, 0x12, 0xD9, 0x41] = 0x41D912FF"
  by (simp add: Uint32_def)

lemma next_stream10:
  "next (sampleIterator stream10) =
     (Inr \<lparr>rec_segmentID = 3, rec_offset = 512, rec_data = [0, 0, 0xFF, 0x12, 0xD9, 0x41],
           rec_key = []\<rparr>,
      (sampleIterator stream10)\<lparr>it_offset := 518, it_r := []\<rparr>)"
  by (simp add: next_complete sampleIterator_def newSegmentIterator_def sampleSegment_def
        stream10_def Uint16_00 Uint32_crc00 crc_00 encodedRecordSize_def)

lemma flip_rec8: "flipBit 0 3 rec8 = [0x00, 0x00, 0x00, 0x00, 0x00, 0x00, 0xFF, 0x12, 0xD9, 0x41, 0x3D, 0x56, 0xDB, 0x60]"
  by (simp add: flipBit_def rec8_def)

lemma next_flip_rec8:
  "fst (next (sampleIterator (flipBit 0 3 rec8))) =
     Inr \<lparr>rec_segmentID = 3, rec_offset = 512, rec_data = [0, 0, 0xFF, 0x12, 0xD9, 0x41],
           rec_key = []\<rparr>"
  by (simp add: flip_rec8 next_complete sampleIterator_def newSegmentIterator_def sampleSegment_def
        Uint16_00 Uint32_crc00 crc_00 encodedRecordSize_def)

section \<open>End of the stream\<close>

text \<open>
  Claim C4. With no byte left the decoder returns the iteration-finished signal. When the
  stream ends after at least one byte but before the declared record is complete (fewer
  than six bytes, or fewer than \<open>2 + keySize + 4\<close>), it returns an error that is neither
  the iteration-finished signal nor a record: \<open>io.EOF\<close> or \<open>io.ErrUnexpectedEOF\<close>.
\<close>

theorem next_end_of_stream:
  "(it_r it = [] \<longrightarrow> fst (next it) = Inl ErrIterationDone)
   \<and> (it_r it \<noteq> []
        \<and> (length (it_r it) < 6
             \<or> length (it_r it) < 2 + unat (Uint16 (take 2 (it_r it))) + 4)
      \<longrightarrow> (fst (next it) = Inl EOF \<or> fst (next it) = Inl ErrUnexpectedEOF)
          \<and> fst (next it) \<noteq> Inl ErrIterationDone
          \<and> isl (fst (next it)))"
proof (intro conjI impI)
  assume "it_r it = []"
  then show "fst (next it) = Inl ErrIterationDone"
    by (simp add: next_empty)
next
  assume a: "it_r it \<noteq> []
        \<and> (length (it_r it) < 6
             \<or> length (it_r it) < 2 + unat (Uint16 (take 2 (it_r it))) + 4)"
  have r: "fst (next it) = Inl EOF \<or> fst (next it) = Inl ErrUnexpectedEOF"
  proof (cases "length (it_r it) < 6")
    case True
    with a show ?thesis
      by (simp add: next_short)
  next
    case ge: False
    show ?thesis
    proof (cases "length (it_r it) = 6")
      case True
      then show ?thesis
        by (simp add: next_prefix_only)
    next
      case False
      with ge have g: "6 < length (it_r it)"
        by simp
      from a ge have l: "length (it_r it) < unat (Uint16 (take 2 (it_r it))) + 10"
        by simp
      show ?thesis
        by (simp add: next_truncated [OF g l])
    qed
  qed
  from r show "fst (next it) = Inl EOF \<or> fst (next it) = Inl ErrUnexpectedEOF" .
  from r show "fst (next it) \<noteq> Inl ErrIterationDone"
    by auto
  from r show "isl (fst (next it))"
    by auto
qed

theorem next_end_of_stream_witness:
  "it_r (sampleIterator []) = []
   \<and> fst (next (sampleIterator [])) = Inl ErrIterationDone
   \<and> it_r (sampleIterator [0x01, 0x00, 0x61]) \<noteq> []
   \<and> length (it_r (sampleIterator [0x01, 0x00, 0x61])) < 6
   \<and> (fst (next (sampleIterator [0x01, 0x00, 0x61])) = Inl EOF
        \<or> fst (next (sampleIterator [0x01, 0x00, 0x61])) = Inl ErrUnexpectedEOF)
   \<and> fst (next (sampleIterator [0x01, 0x00, 0x61])) \<noteq> Inl ErrIterationDone
   \<and> it_r (sampleIterator [0x05, 0x00, 0x01, 0x02, 0x03, 0x04, 0x05]) \<noteq> []
   \<and> length (it_r (sampleIterator [0x05, 0x00, 0x01, 0x02, 0x03, 0x04, 0x05]))
         < 2 + unat (Uint16 (take 2 (it_r (sampleIterator [0x05, 0x00, 0x01, 0x02, 0x03, 0x04, 0x05])))) + 4
   \<and> (fst (next (sampleIterator [0x05, 0x00, 0x01, 0x02, 0x03, 0x04, 0x05])) = Inl EOF
        \<or> fst (next (sampleIterator [0x05, 0x00, 0x01, 0x02, 0x03, 0x04, 0x05])) = Inl ErrUnexpectedEOF)
   \<and> fst (next (sampleIterator [0x05, 0x00, 0x01, 0x02, 0x03, 0x04, 0x05])) \<noteq> Inl ErrIterationDone"
proof -
  have r: "it_r (sampleIterator bs) = bs" for bs
    by (simp add: sampleIterator_def newSegmentIterator_def sampleSegment_def)
  have u: "Uint16 [0x05, 0x00] = 5"
    by (simp add: Uint16_def)
  have 1: "it_r (sampleIterator []) = []"
    by (simp add: r)
  have 2: "it_r (sampleIterator [0x01, 0x00, 0x61]) \<noteq> []
           \<and> (length (it_r (sampleIterator [0x01, 0x00, 0x61])) < 6
                \<or> length (it_r (sampleIterator [0x01, 0x00, 0x61]))
                     < 2 + unat (Uint16 (take 2 (it_r (sampleIterator [0x01, 0x00, 0x61])))) + 4)"
    by (simp add: r)
  have 3: "it_r (sampleIterator [0x05, 0x00, 0x01, 0x02, 0x03, 0x04, 0x05]) \<noteq> []
           \<and> (length (it_r (sampleIterator [0x05, 0x00, 0x01, 0x02, 0x03, 0x04, 0x05])) < 6
                \<or> length (it_r (sampleIterator [0x05, 0x00, 0x01, 0x02, 0x03, 0x04, 0x05]))
                     < 2 + unat (Uint16 (take 2 (it_r (sampleIterator [0x05, 0x00, 0x01, 0x02, 0x03, 0x04, 0x05])))) + 4)"
    by (simp add: r u)
  have l2: "length (it_r (sampleIterator [0x01, 0x00, 0x61])) < 6"
    by (simp add: r)
  have l3: "length (it_r (sampleIterator [0x05, 0x00, 0x01, 0x02, 0x03, 0x04, 0x05]))
         < 2 + unat (Uint16 (take 2 (it_r (sampleIterator [0x05, 0x00, 0x01, 0x02, 0x03, 0x04, 0x05])))) + 4"
    by (simp add: r u)
  note a = next_end_of_stream [of "sampleIterator []", THEN conjunct1, rule_format, OF 1]
  note b = next_end_of_stream [of "sampleIterator [0x01, 0x00, 0x61]", THEN conjunct2, rule_format, OF 2]
  note c = next_end_of_stream [of "sampleIterator [0x05, 0x00, 0x01, 0x02, 0x03, 0x04, 0x05]",
             THEN conjunct2, rule_format, OF 3]
  from 1 a 2 l2 b 3 l3 c show ?thesis
    by blast
qed

section \<open>Round trip of a record through the iterator\<close>

lemma encodePutRecord_shape:
  assumes "length k \<le> MaxKeyLength" and "encodePutRecord k = Some d"
  shows "length d = length k + 6" and "unat (Uint16 (take 2 d)) = length k"
proof -
  have k: "length k \<le> 65535"
    using assms(1) by (simp add: MaxKeyLength_def)
  have d: "d = PutUint16 (of_nat (length k)) @ k
               @ PutUint32 (ChecksumIEEE (PutUint16 (of_nat (length k)) @ k))"
    using assms(2) by (simp add: encodePutRecord_Some [OF k])
  show "length d = length k + 6"
    by (simp add: d length_PutUint16 length_PutUint32)
  have "take 2 d = PutUint16 (of_nat (length k))"
    by (simp add: d length_PutUint16)
  then show "unat (Uint16 (take 2 d)) = length k"
    using k by (simp add: Uint16_PutUint16 unat_of_nat)
qed

text \<open>
  Claim C2 (the code departs from it). The iterator does not decode what
  \<open>encodePutRecord\<close> writes: it reads six bytes as the size prefix and then
  \<open>keySize + 4\<close> more, four bytes more than a record has. On the stream that holds the
  encoded record of a key of at most 65535 bytes, \<open>next\<close> returns \<open>io.EOF\<close> for the
  empty key and \<open>io.ErrUnexpectedEOF\<close> for every other key.
\<close>

theorem next_encodePutRecord_fails:
  assumes "length k \<le> MaxKeyLength" and "encodePutRecord k = Some d" and "it_r it = d"
  shows "fst (next it) = Inl (if k = [] then EOF else ErrUnexpectedEOF)"
proof (cases "k = []")
  case True
  have "length (it_r it) = 6"
    using encodePutRecord_shape(1) [OF assms(1,2)] True assms(3) by simp
  then have "next it = (Inl EOF, it\<lparr>it_r := []\<rparr>)"
    by (rule next_prefix_only)
  with True show ?thesis
    by simp
next
  case False
  have g: "6 < length (it_r it)"
    using encodePutRecord_shape(1) [OF assms(1,2)] False assms(3) by simp
  have l: "length (it_r it) < unat (Uint16 (take 2 (it_r it))) + 10"
    using encodePutRecord_shape [OF assms(1,2)] assms(3) by simp
  have "next it = (Inl ErrUnexpectedEOF, it\<lparr>it_r := []\<rparr>)"
    using g l by (rule next_truncated)
  with False show ?thesis
    by simp
qed

theorem next_encodePutRecord_fails_witness:
  "length keyA \<le> MaxKeyLength
   \<and> encodePutRecord keyA = Some recA
   \<and> it_r (sampleIterator recA) = recA
   \<and> fst (next (sampleIterator recA)) = Inl ErrUnexpectedEOF"
proof -
  have 1: "length keyA \<le> MaxKeyLength"
    by (simp add: keyA_def MaxKeyLength_def)
  have 2: "encodePutRecord keyA = Some recA"
    by (rule encodePutRecord_keyA)
  have 3: "it_r (sampleIterator recA) = recA"
    by (simp add: sampleIterator_def newSegmentIterator_def sampleSegment_def)
  have "keyA \<noteq> []"
    by (simp add: keyA_def)
  with next_encodePutRecord_fails [OF 1 2 3] have "fst (next (sampleIterator recA)) = Inl ErrUnexpectedEOF"
    by simp
  with 1 2 3 show ?thesis
    by blast
qed

section \<open>Offsets of the records an iterator produces\<close>

lemma next_Inr_key_length:
  assumes "next it = (Inr rec, it')"
  shows "length (rec_key rec) = unat (Uint16 (take 2 (it_r it)))"
proof -
  have c: "unat (Uint16 (take 2 (it_r it))) + 10 \<le> length (it_r it)"
    using assms by (rule next_Inr_complete)
  have "length (rec_data rec) = unat (Uint16 (take 2 (it_r it))) + 6"
    using c by (simp add: next_Inr(1) [OF assms])
  then show ?thesis
    by (simp add: next_Inr(3) [OF assms])
qed

text \<open>
  Claim C8 (amended). The iterator counts offsets from the start of the segment file, not
  from just past the header: a new iterator starts at \<open>headerSize\<close>, each record carries
  the iterator's offset at the time of the call, and a record moves the offset on by its
  encoded size. The first record of a segment has offset \<open>headerSize\<close>.
\<close>

theorem record_offset:
  "(next it = (Inr rec, it') \<longrightarrow>
      rec_offset rec = it_offset it
      \<and> rec_segmentID rec = seg_id (it_f it)
      \<and> it_offset it' = it_offset it + encodedRecordSize (of_nat (length (rec_key rec))))
   \<and> it_offset (newSegmentIterator headerSize f) = headerSize
   \<and> (next (newSegmentIterator headerSize f) = (Inr rec1, it1) \<longrightarrow> rec_offset rec1 = headerSize)"
proof (intro conjI impI)
  assume a: "next it = (Inr rec, it')"
  show "rec_offset rec = it_offset it"
    using a by (rule next_Inr(4))
  show "rec_segmentID rec = seg_id (it_f it)"
    using a by (rule next_Inr(5))
  have "(of_nat (length (rec_key rec)) :: uint32) = ucast (Uint16 (take 2 (it_r it)))"
    by (simp add: next_Inr_key_length [OF a])
  then show "it_offset it' = it_offset it + encodedRecordSize (of_nat (length (rec_key rec)))"
    by (simp add: next_Inr(6) [OF a])
next
  show "it_offset (newSegmentIterator headerSize f) = headerSize"
    by (simp add: newSegmentIterator_def)
next
  assume "next (newSegmentIterator headerSize f) = (Inr rec1, it1)"
  then have "rec_offset rec1 = it_offset (newSegmentIterator headerSize f)"
    by (rule next_Inr(4))
  then show "rec_offset rec1 = headerSize"
    by (simp add: newSegmentIterator_def)
qed

theorem record_offset_witness:
  "next (newSegmentIterator 512 (sampleSegment stream10))
     = (Inr \<lparr>rec_segmentID = 3, rec_offset = 512, rec_data = [0, 0, 0xFF, 0x12, 0xD9, 0x41],
             rec_key = []\<rparr>,
        (sampleIterator stream10)\<lparr>it_offset := 518, it_r := []\<rparr>)
   \<and> rec_offset \<lparr>rec_segmentID = 3, rec_offset = 512, rec_data = [0, 0, 0xFF, 0x12, 0xD9, 0x41],
                  rec_key = []\<rparr> = 512
   \<and> it_offset ((sampleIterator stream10)\<lparr>it_offset := 518, it_r := []\<rparr>)
       = 512 + encodedRecordSize (of_nat (length ([] :: byte list)))"
proof -
  let ?rec = "\<lparr>rec_segmentID = 3, rec_offset = 512, rec_data = [0, 0, 0xFF, 0x12, 0xD9, 0x41],
               rec_key = []\<rparr>"
  let ?it' = "(sampleIterator stream10)\<lparr>it_offset := 518, it_r := []\<rparr>"
  have n: "next (newSegmentIterator 512 (sampleSegment stream10)) = (Inr ?rec, ?it')"
    using next_stream10 by (simp add: sampleIterator_def)
  note t = record_offset [of "newSegmentIterator 512 (sampleSegment stream10)" ?rec ?it'
             512 "sampleSegment stream10" ?rec ?it']
  from t [THEN conjunct1, rule_format, OF n] t [THEN conjunct2, THEN conjunct2, rule_format, OF n] n
  show ?thesis
    by (simp add: newSegmentIterator_def)
qed

text \<open>
  The claim as stated fails: with a header of 512 bytes the first record of a segment has
  offset 512, not 0.
\<close>

theorem record_offset_counterexample:
  "fst (next (newSegmentIterator 512 (sampleSegment stream10)))
     = Inr \<lparr>rec_segmentID = 3, rec_offset = 512, rec_data = [0, 0, 0xFF, 0x12, 0xD9, 0x41],
             rec_key = []\<rparr>
   \<and> rec_offset \<lparr>rec_segmentID = 3, rec_offset = 512, rec_data = [0, 0, 0xFF, 0x12, 0xD9, 0x41],
                  rec_key = []\<rparr> \<noteq> 0"
  using next_stream10 by (simp add: sampleIterator_def)

section \<open>Key too large\<close>

lemma Put_too_large: "MaxKeyLength < length key \<Longrightarrow> Put H key db = (Some errKeyTooLarge, db)"
  by (simp add: Put_def)

lemma HasOrPut_too_large:
  "MaxKeyLength < length key \<Longrightarrow> HasOrPut H key db = ((False, Some errKeyTooLarge), db)"
  by (simp add: HasOrPut_def)

text \<open>
  Claim C5. For every key longer than \<open>MaxKeyLength\<close>, \<open>Put\<close> returns the key-too-large
  error and \<open>HasOrPut\<close> returns \<open>(false, key too large)\<close>; both leave the database as
  it was, so the count keeps its value and the datalog has no new record.
\<close>

theorem key_too_large:
  assumes "MaxKeyLength < length key"
  shows "Put H key db = (Some errKeyTooLarge, db)
       \<and> HasOrPut H key db = ((False, Some errKeyTooLarge), db)
       \<and> Count (snd (Put H key db)) = Count db
       \<and> Count (snd (HasOrPut H key db)) = Count db
       \<and> datalog (snd (Put H key db)) = datalog db
       \<and> datalog (snd (HasOrPut H key db)) = datalog db"
  using assms by (simp add: Put_too_large HasOrPut_too_large)

theorem key_too_large_witness:
  "MaxKeyLength < length longKey
   \<and> Put sampleHash longKey emptyDB = (Some errKeyTooLarge, emptyDB)
   \<and> HasOrPut sampleHash longKey emptyDB = ((False, Some errKeyTooLarge), emptyDB)
   \<and> Count (snd (Put sampleHash longKey emptyDB)) = Count emptyDB
   \<and> Count (snd (HasOrPut sampleHash longKey emptyDB)) = Count emptyDB
   \<and> datalog (snd (Put sampleHash longKey emptyDB)) = datalog emptyDB
   \<and> datalog (snd (HasOrPut sampleHash longKey emptyDB)) = datalog emptyDB"
proof -
  have h: "MaxKeyLength < length longKey"
    by (simp add: longKey_def)
  show ?thesis
    using h key_too_large [OF h, of sampleHash emptyDB] by simp
qed

end
